theory Spec2Isabelle
  imports Main
begin

section \<open>Strings as the chunker uses them\<close>

text \<open>
  A Python \<open>str\<close> is modelled as a \<open>string\<close>; a \<open>char\<close> stands for one code point
  below 256.  The chunker of \<open>uploader.py\<close> uses \<open>str.strip\<close>, \<open>str.split\<close>,
  \<open>str.join\<close> and three regular expressions; each is written out below as the
  function it computes.
\<close>

definition nl :: char where
  "nl = CHR 0x0A"

text \<open>
  Python's whitespace (\<open>str.isspace\<close>, \<open>\s\<close> of a \<open>str\<close> pattern, the separators of
  \<open>str.split()\<close> and \<open>str.strip()\<close>) among the code points below 256: TAB, LF, VT, FF,
  CR, the four separators 0x1C to 0x1F, the space, NEL (0x85) and the no-break space (0xA0).
\<close>

definition isspace :: "char \<Rightarrow> bool" where
  "isspace c =
     (let n = (of_char c :: nat)
      in (9 \<le> n \<and> n \<le> 13) \<or> (28 \<le> n \<and> n \<le> 32) \<or> n = 133 \<or> n = 160)"

definition strip :: "string \<Rightarrow> string" where
  "strip s = rev (dropWhile isspace (rev (dropWhile isspace s)))"

text \<open>\<open>sep.join(xs)\<close>\<close>

fun join :: "string \<Rightarrow> string list \<Rightarrow> string" where
  "join sep [] = []"
| "join sep [x] = x"
| "join sep (x # y # ys) = x @ sep @ join sep (y # ys)"

text \<open>\<open>c\<close> is put in front of the first piece of a split that is under way.\<close>

fun cons_hd :: "char \<Rightarrow> string list \<Rightarrow> string list" where
  "cons_hd c [] = [[c]]"
| "cons_hd c (l # ls) = (c # l) # ls"

text \<open>\<open>markdown.split("\n")\<close>: the empty string gives one empty line.\<close>

fun split_newline :: "string \<Rightarrow> string list" where
  "split_newline [] = [[]]"
| "split_newline (c # cs) =
     (if c = nl then [] # split_newline cs else cons_hd c (split_newline cs))"

text \<open>\<open>text.split()\<close>: the maximal runs of non-whitespace characters.\<close>

fun split_ws_from :: "string \<Rightarrow> string \<Rightarrow> string list" where
  "split_ws_from w [] = (if w = [] then [] else [w])"
| "split_ws_from w (c # cs) =
     (if isspace c then (if w = [] then split_ws_from [] cs else w # split_ws_from [] cs)
      else split_ws_from (w @ [c]) cs)"

definition split_ws :: "string \<Rightarrow> string list" where
  "split_ws s = split_ws_from [] s"

text \<open>
  The slice \<open>xs[-k:]\<close> for \<open>k \<ge> 0\<close>: the last \<open>k\<close> elements (all of them when the list
  is shorter), except that \<open>-0\<close> is \<open>0\<close>, so \<open>xs[-0:]\<close> is the whole list.
\<close>

definition last_slice :: "nat \<Rightarrow> 'a list \<Rightarrow> 'a list" where
  "last_slice k xs = (if k = 0 then xs else drop (length xs - k) xs)"

subsection \<open>The heading pattern\<close>

text \<open>
  \<open>re.match(r"^(##|###)\s+(.+)$", line)\<close> on a line without a line feed (the lines come
  from \<open>split("\n")\<close>).  After the marker, \<open>\s+\<close> is greedy and takes the whole run of
  whitespace; \<open>(.+)\<close> is what follows it, and when nothing follows, \<open>\s+\<close> gives its last
  character back to \<open>(.+)\<close>, which needs a run of at least two.  The result is the pair of
  groups.
\<close>

definition heading_groups :: "string \<Rightarrow> string \<Rightarrow> (string \<times> string) option" where
  "heading_groups marker line =
     (if take (length marker) line = marker then
        (let rest = drop (length marker) line;
             ws = takeWhile isspace rest;
             body = dropWhile isspace rest
         in if ws = [] then None
            else if body \<noteq> [] then Some (marker, body)
            else if 2 \<le> length ws then Some (marker, [last ws])
            else None)
      else None)"

definition heading_match :: "string \<Rightarrow> (string \<times> string) option" where
  "heading_match line =
     (case heading_groups ''##'' line of
        Some g \<Rightarrow> Some g
      | None \<Rightarrow> heading_groups ''###'' line)"

subsection \<open>The paragraph separator\<close>

text \<open>
  \<open>\n\s*\n\<close> after its first line feed: \<open>\s*\<close> is greedy and backtracks to the last line
  feed of the whitespace run that follows.  The result is the text after the match.
\<close>

definition blank_sep :: "string \<Rightarrow> string option" where
  "blank_sep cs =
     (let ws = takeWhile isspace cs
      in if nl \<in> set ws
         then Some (drop (length ws - length (takeWhile (\<lambda>c. c \<noteq> nl) (rev ws))) cs)
         else None)"

lemma blank_sep_length: "blank_sep cs = Some r \<Longrightarrow> length r \<le> length cs"
  by (auto simp: blank_sep_def Let_def split: if_splits)

text \<open>\<open>re.split(r"\n\s*\n", text)\<close>\<close>

function re_split_blank :: "string \<Rightarrow> string list" where
  "re_split_blank [] = [[]]"
| "re_split_blank (c # cs) =
     (if c = nl then
        (case blank_sep cs of
           Some r \<Rightarrow> [] # re_split_blank r
         | None \<Rightarrow> cons_hd c (re_split_blank cs))
      else cons_hd c (re_split_blank cs))"
  by pat_completeness auto
termination
  by (relation "measure length") (auto dest: blank_sep_length)

subsection \<open>The sentence separator\<close>

definition is_stop :: "char \<Rightarrow> bool" where
  "is_stop c = (c = CHR ''.'' \<or> c = CHR ''!'' \<or> c = CHR ''?'')"

text \<open>
  \<open>[.!?]+\s+\<close> at the start of a text: a run of stops and the whitespace after it, both
  taken whole.  The result is the text after the match.
\<close>

definition stop_sep :: "string \<Rightarrow> string option" where
  "stop_sep s =
     (let r = dropWhile is_stop s
      in if takeWhile is_stop s \<noteq> [] \<and> takeWhile isspace r \<noteq> []
         then Some (dropWhile isspace r)
         else None)"

lemma stop_sep_length: "stop_sep (c # cs) = Some r \<Longrightarrow> length r \<le> length cs"
proof -
  assume a: "stop_sep (c # cs) = Some r"
  then have c: "is_stop c"
    by (auto simp: stop_sep_def Let_def split: if_splits)
  with a have "r = dropWhile isspace (dropWhile is_stop cs)"
    by (auto simp: stop_sep_def Let_def split: if_splits)
  moreover have "length (dropWhile isspace (dropWhile is_stop cs)) \<le> length cs"
    by (meson length_dropWhile_le order_trans)
  ultimately show ?thesis by simp
qed

text \<open>\<open>re.split(r'[.!?]+\s+', para)\<close>\<close>

function re_split_sentences :: "string \<Rightarrow> string list" where
  "re_split_sentences [] = [[]]"
| "re_split_sentences (c # cs) =
     (case stop_sep (c # cs) of
        Some r \<Rightarrow> [] # re_split_sentences r
      | None \<Rightarrow> cons_hd c (re_split_sentences cs))"
  by pat_completeness auto
termination
  by (relation "measure length") (auto dest: stop_sep_length)


section \<open>The uploader's chunking\<close>

subsection \<open>Token counts\<close>

text \<open>
  \<open>self.encoding\<close> is tiktoken's encoding of \<open>gpt-4\<close>, outside the repository; the
  model takes its \<open>encode\<close> as a parameter \<open>enc\<close> from texts to token lists.
  \<open>_count_tokens\<close> is the length of the encoded text.  (tiktoken refuses a text that
  contains one of its special tokens; \<open>enc\<close> stands for \<open>encode\<close> on the texts it
  accepts.)
\<close>

type_synonym encoding = "string \<Rightarrow> nat list"

definition count_tokens :: "encoding \<Rightarrow> string \<Rightarrow> nat" where
  "count_tokens enc txt = length (enc txt)"

subsection \<open>Chunking parameters\<close>

text \<open>
  The four thresholds are module globals, read at each use.  The model passes them as a
  record, and \<open>module_config\<close> holds the values \<open>uploader.py\<close> binds them to.
\<close>

record config =
  TARGET_TOKENS :: nat
  OVERLAP_TOKENS :: nat
  MIN_CHUNK_TOKENS :: nat
  MAX_CHUNK_TOKENS :: nat

definition module_config :: config where
  "module_config =
     \<lparr>TARGET_TOKENS = 600, OVERLAP_TOKENS = 100, MIN_CHUNK_TOKENS = 200,
      MAX_CHUNK_TOKENS = 800\<rparr>"

subsection \<open>Sections\<close>

text \<open>
  A section dictionary.  The first section of a document has no \<open>heading_level\<close> key.
\<close>

record md_section =
  heading :: string
  heading_level :: "nat option"
  content :: string

text \<open>
  The loop of \<open>_split_by_heading\<close> over the lines, on the pair of \<open>sections\<close> and
  \<open>current_section\<close>.
\<close>

fun heading_loop :: "md_section list \<Rightarrow> md_section \<Rightarrow> string list \<Rightarrow> md_section list \<times> md_section" where
  "heading_loop sections current_section [] = (sections, current_section)"
| "heading_loop sections current_section (line # lines) =
     (case heading_match line of
        Some (marker, heading_text) \<Rightarrow>
          heading_loop
            (if strip (content current_section) \<noteq> [] then sections @ [current_section]
             else sections)
            \<lparr>heading = strip heading_text, heading_level = Some (length marker),
             content = line @ [nl]\<rparr>
            lines
      | None \<Rightarrow>
          heading_loop sections
            (current_section\<lparr>content := content current_section @ line @ [nl]\<rparr>)
            lines)"

definition split_by_heading :: "string \<Rightarrow> md_section list" where
  "split_by_heading markdown =
     (case heading_loop [] \<lparr>heading = [], heading_level = None, content = []\<rparr>
             (split_newline markdown) of
        (sections, current_section) \<Rightarrow>
          if strip (content current_section) \<noteq> [] then sections @ [current_section]
          else sections)"

definition split_into_paragraphs :: "string \<Rightarrow> string list" where
  "split_into_paragraphs txt =
     map strip (filter (\<lambda>p. strip p \<noteq> []) (re_split_blank txt))"

subsection \<open>Chunks and the accumulation buffer\<close>

text \<open>
  A chunk dictionary, with the keys \<open>text\<close>, \<open>tokens\<close>, \<open>heading\<close>, \<open>chunk_index\<close>,
  \<open>article_slug\<close> and \<open>source_url\<close>.
\<close>

record chunk =
  chunk_text :: string
  tokens :: nat
  chunk_heading :: string
  chunk_index :: nat
  article_slug :: string
  source_url :: string

text \<open>
  The variables of \<open>_create_chunks\<close> that its loops update: the buffer
  \<open>current_chunk\<close>, its running total \<open>current_tokens\<close>, the section's counter
  \<open>chunk_index\<close> (here \<open>index\<close>) and the result list \<open>chunks\<close>.
\<close>

record builder =
  current_chunk :: "string list"
  current_tokens :: nat
  index :: nat
  chunks :: "chunk list"

text \<open>The three values every chunk of a section copies: heading, slug and URL.\<close>

record origin =
  of_heading :: string
  of_slug :: string
  of_url :: string

definition blank_line :: string where
  "blank_line = [nl, nl]"

text \<open>\<open>chunks.append({...})\<close> followed by \<open>chunk_index += 1\<close>.\<close>

definition emit :: "origin \<Rightarrow> builder \<Rightarrow> builder" where
  "emit og st =
     st\<lparr>chunks := chunks st @
            [\<lparr>chunk_text = join blank_line (current_chunk st),
              tokens = current_tokens st,
              chunk_heading = of_heading og,
              chunk_index = index st,
              article_slug = of_slug og,
              source_url = of_url og\<rparr>],
        index := index st + 1\<rparr>"

text \<open>
  The trimming of the overlap text.  \<open>int(OVERLAP_TOKENS * len(overlap_words) /
  overlap_tokens)\<close> divides two non-negative integers as floats and truncates; below
  \<open>2^53\<close> that is the integer quotient.  The guard makes \<open>overlap_tokens\<close> positive.
\<close>

definition trim_overlap :: "config \<Rightarrow> encoding \<Rightarrow> string \<Rightarrow> string" where
  "trim_overlap cfg enc overlap_text =
     (let overlap_tokens = count_tokens enc overlap_text
      in if overlap_tokens > OVERLAP_TOKENS cfg then
           (let overlap_words = split_ws overlap_text;
                target_words = (OVERLAP_TOKENS cfg * length overlap_words) div overlap_tokens
            in join '' '' (last_slice target_words overlap_words))
         else overlap_text)"

text \<open>
  \<open>current_chunk = [overlap_text, unit] if overlap_text else [unit]\<close> and the recount of
  the joined buffer.
\<close>

definition restart :: "encoding \<Rightarrow> string \<Rightarrow> string \<Rightarrow> builder \<Rightarrow> builder" where
  "restart enc overlap_text unit st =
     (let new_chunk = (if overlap_text \<noteq> [] then [overlap_text, unit] else [unit])
      in st\<lparr>current_chunk := new_chunk,
            current_tokens := count_tokens enc (join blank_line new_chunk)\<rparr>)"

definition append_unit :: "string \<Rightarrow> nat \<Rightarrow> builder \<Rightarrow> builder" where
  "append_unit unit unit_tokens st =
     st\<lparr>current_chunk := current_chunk st @ [unit],
        current_tokens := current_tokens st + unit_tokens\<rparr>"

text \<open>The body of the loop over the sentences of an oversized paragraph.\<close>

definition sentence_step :: "config \<Rightarrow> encoding \<Rightarrow> origin \<Rightarrow> builder \<Rightarrow> string \<Rightarrow> builder" where
  "sentence_step cfg enc og st sent =
     (let sent_tokens = count_tokens enc sent
      in if current_tokens st + sent_tokens > TARGET_TOKENS cfg \<and> current_chunk st \<noteq> [] then
           (let overlap_text =
                  (if 2 \<le> length (current_chunk st)
                   then join blank_line (last_slice 2 (current_chunk st))
                   else if current_chunk st \<noteq> [] then last (current_chunk st)
                   else [])
            in restart enc (trim_overlap cfg enc overlap_text) sent (emit og st))
         else append_unit sent sent_tokens st)"

text \<open>The body of the loop over the paragraphs of a section.\<close>

definition paragraph_step :: "config \<Rightarrow> encoding \<Rightarrow> origin \<Rightarrow> builder \<Rightarrow> string \<Rightarrow> builder" where
  "paragraph_step cfg enc og st para =
     (let para_tokens = count_tokens enc para
      in if para_tokens > MAX_CHUNK_TOKENS cfg then
           foldl (sentence_step cfg enc og)
             (if current_chunk st \<noteq> []
              then (emit og st)\<lparr>current_chunk := [], current_tokens := 0\<rparr>
              else st)
             (re_split_sentences para)
         else if current_tokens st + para_tokens > TARGET_TOKENS cfg \<and> current_chunk st \<noteq> [] then
           (let overlap_text =
                  (if current_chunk st \<noteq> []
                   then join blank_line (last_slice 1 (current_chunk st))
                   else [])
            in restart enc (trim_overlap cfg enc overlap_text) para
                 (if current_tokens st \<ge> MIN_CHUNK_TOKENS cfg then emit og st else st))
         else append_unit para para_tokens st)"

text \<open>\<open># Save remaining chunk\<close>, after the paragraphs of a section.\<close>

definition save_remaining :: "config \<Rightarrow> origin \<Rightarrow> builder \<Rightarrow> builder" where
  "save_remaining cfg og st =
     (if current_chunk st \<noteq> [] \<and> current_tokens st \<ge> MIN_CHUNK_TOKENS cfg then emit og st
      else st)"

text \<open>
  The body of the loop over the sections: the buffer, its total and the counter start
  afresh, and the section's chunks are appended to \<open>chunks\<close>.
\<close>

definition section_step ::
  "config \<Rightarrow> encoding \<Rightarrow> string \<Rightarrow> string \<Rightarrow> chunk list \<Rightarrow> md_section \<Rightarrow> chunk list" where
  "section_step cfg enc slug url cs sec =
     (let og = \<lparr>of_heading = heading sec, of_slug = slug, of_url = url\<rparr>;
          paragraphs = split_into_paragraphs (content sec)
      in chunks
           (save_remaining cfg og
              (foldl (paragraph_step cfg enc og)
                 \<lparr>current_chunk = [], current_tokens = 0, index = 0, chunks = cs\<rparr>
                 paragraphs)))"

text \<open>
  The sections \<open>_create_chunks\<close> works on: those of \<open>_split_by_heading\<close>, or the whole
  document as one section when there are none.
\<close>

definition sections_of :: "string \<Rightarrow> md_section list" where
  "sections_of markdown =
     (let sections = split_by_heading markdown
      in if sections = []
         then [\<lparr>heading = [], heading_level = None, content = markdown\<rparr>]
         else sections)"

definition create_chunks ::
  "config \<Rightarrow> encoding \<Rightarrow> string \<Rightarrow> string \<Rightarrow> string \<Rightarrow> chunk list" where
  "create_chunks cfg enc markdown slug url =
     foldl (section_step cfg enc slug url) [] (sections_of markdown)"

subsection \<open>Stand-in encodings\<close>

text \<open>
  Two cheap encodings for concrete runs.  \<open>word_encoding k\<close> gives every
  whitespace-separated word \<open>k\<close> tokens; \<open>quad_encoding\<close> gives one token to every
  four characters, the last token taking what is left.
\<close>

definition word_encoding :: "nat \<Rightarrow> encoding" where
  "word_encoding k txt = concat (map (\<lambda>w. replicate k (length w)) (split_ws txt))"

fun quad_encoding :: encoding where
  "quad_encoding (a # b # c # d # cs) = 4 # quad_encoding cs"
| "quad_encoding [] = []"
| "quad_encoding cs = [length cs]"


subsection \<open>Units and the states reached\<close>

text \<open>
  The units the accumulation sees: a paragraph, or the sentences of a paragraph whose
  token count exceeds the maximum.
\<close>

definition units :: "config \<Rightarrow> encoding \<Rightarrow> string list \<Rightarrow> string list" where
  "units cfg enc paragraphs =
     concat (map (\<lambda>p. if count_tokens enc p > MAX_CHUNK_TOKENS cfg
                        then re_split_sentences p else [p]) paragraphs)"

text \<open>
  Two shapes of chunk whose \<open>tokens\<close> is the count of its text: one unit alone that
  exceeds the maximum, and an overlap text followed by one unit.
\<close>

definition oversized_alone :: "config \<Rightarrow> encoding \<Rightarrow> string list \<Rightarrow> chunk \<Rightarrow> bool" where
  "oversized_alone cfg enc us c =
     (chunk_text c \<in> set us \<and>
      MAX_CHUNK_TOKENS cfg < count_tokens enc (chunk_text c) \<and>
      tokens c = count_tokens enc (chunk_text c))"

definition overlap_then_unit :: "encoding \<Rightarrow> string list \<Rightarrow> chunk \<Rightarrow> bool" where
  "overlap_then_unit enc us c =
     ((\<exists>u \<in> set us. \<exists>ov. ov \<noteq> [] \<and> chunk_text c = ov @ blank_line @ u) \<and>
      tokens c = count_tokens enc (chunk_text c))"

definition chunk_ok :: "config \<Rightarrow> encoding \<Rightarrow> string list \<Rightarrow> chunk \<Rightarrow> bool" where
  "chunk_ok cfg enc us c =
     (tokens c \<le> MAX_CHUNK_TOKENS cfg \<or> oversized_alone cfg enc us c \<or>
      overlap_then_unit enc us c)"

text \<open>Invariants of the loops, used in the proofs below.\<close>

definition buffer_ok :: "config \<Rightarrow> encoding \<Rightarrow> string list \<Rightarrow> builder \<Rightarrow> bool" where
  "buffer_ok cfg enc us st =
     ((current_chunk st = [] \<longrightarrow> current_tokens st = 0) \<and>
      (current_tokens st \<le> MAX_CHUNK_TOKENS cfg \<or>
       current_tokens st = count_tokens enc (join blank_line (current_chunk st)) \<and>
       ((\<exists>u \<in> set us. current_chunk st = [u] \<and> MAX_CHUNK_TOKENS cfg < count_tokens enc u) \<or>
        (\<exists>u \<in> set us. \<exists>ov. ov \<noteq> [] \<and> current_chunk st = [ov, u]))))"

definition state_ok :: "config \<Rightarrow> encoding \<Rightarrow> string list \<Rightarrow> builder \<Rightarrow> bool" where
  "state_ok cfg enc us st =
     (buffer_ok cfg enc us st \<and> (\<forall>c \<in> set (chunks st). chunk_ok cfg enc us c))"

definition all_at_least :: "config \<Rightarrow> builder \<Rightarrow> bool" where
  "all_at_least cfg st = (\<forall>c \<in> set (chunks st). MIN_CHUNK_TOKENS cfg \<le> tokens c)"

definition extends :: "builder \<Rightarrow> builder \<Rightarrow> bool" where
  "extends st st' =
     (\<exists>more. chunks st' = chunks st @ more \<and>
             map chunk_index more = [index st..<index st'] \<and> index st \<le> index st')"

definition prepend :: "chunk list \<Rightarrow> builder \<Rightarrow> builder" where
  "prepend cs st = st\<lparr>chunks := cs @ chunks st\<rparr>"

section \<open>Properties of the chunking\<close>

subsection \<open>What each operation does to the variables\<close>

lemma emit_fields [simp]:
  "current_chunk (emit og st) = current_chunk st"
  "current_tokens (emit og st) = current_tokens st"
  "index (emit og st) = Suc (index st)"
  "chunks (emit og st) =
     chunks st @
       [\<lparr>chunk_text = join blank_line (current_chunk st), tokens = current_tokens st,
         chunk_heading = of_heading og, chunk_index = index st,
         article_slug = of_slug og, source_url = of_url og\<rparr>]"
  by (simp_all add: emit_def)

lemma restart_fields [simp]:
  "index (restart enc ov u st) = index st"
  "chunks (restart enc ov u st) = chunks st"
  "current_chunk (restart enc ov u st) = (if ov \<noteq> [] then [ov, u] else [u])"
  "current_tokens (restart enc ov u st) =
     count_tokens enc (join blank_line (if ov \<noteq> [] then [ov, u] else [u]))"
  by (simp_all add: restart_def Let_def)

lemma append_unit_fields [simp]:
  "index (append_unit u n st) = index st"
  "chunks (append_unit u n st) = chunks st"
  "current_chunk (append_unit u n st) = current_chunk st @ [u]"
  "current_tokens (append_unit u n st) = current_tokens st + n"
  by (simp_all add: append_unit_def)

lemma foldl_invariant:
  assumes "P s" and "\<And>s x. P s \<Longrightarrow> x \<in> set xs \<Longrightarrow> P (f s x)"
  shows "P (foldl f s xs)"
  using assms by (induction xs arbitrary: s) auto


lemma extends_refl: "extends st st"
  by (simp add: extends_def)

lemma extends_same:
  "chunks st' = chunks st \<Longrightarrow> index st' = index st \<Longrightarrow> extends st st'"
  by (simp add: extends_def)

lemma extends_trans: "extends a b \<Longrightarrow> extends b c \<Longrightarrow> extends a c"
proof -
  assume "extends a b" and "extends b c"
  then obtain m n where m: "chunks b = chunks a @ m" "map chunk_index m = [index a..<index b]"
      "index a \<le> index b"
    and n: "chunks c = chunks b @ n" "map chunk_index n = [index b..<index c]"
      "index b \<le> index c"
    by (auto simp: extends_def)
  have "[index a..<index c] = [index a..<index b] @ [index b..<index c]"
    using m(3) n(3) by (metis le_Suc_ex upt_add_eq_append)
  with m n have "chunks c = chunks a @ (m @ n) \<and>
      map chunk_index (m @ n) = [index a..<index c] \<and> index a \<le> index c"
    by simp
  then show ?thesis unfolding extends_def by blast
qed

lemma extends_emit: "extends st (emit og st)"
  by (simp add: extends_def)

lemma extends_foldl:
  assumes "\<And>s x. extends s (f s x)"
  shows "extends st (foldl f st xs)"
proof (induction xs arbitrary: st)
  case Nil
  show ?case by (simp add: extends_refl)
next
  case (Cons x xs)
  show ?case using assms [of st x] Cons [of "f st x"] by (auto intro: extends_trans)
qed

lemma extends_restart_emit: "extends st (restart enc ov u (emit og st))"
  by (rule extends_trans [OF extends_emit [where og = og]]) (simp add: extends_same)

lemma extends_sentence_step: "extends st (sentence_step cfg enc og st sent)"
  by (simp add: sentence_step_def Let_def extends_restart_emit extends_same)

lemma extends_paragraph_step: "extends st (paragraph_step cfg enc og st para)"
proof -
  let ?st1 = "(emit og st)\<lparr>current_chunk := [], current_tokens := 0\<rparr>"
  have 1: "extends st ?st1"
    by (rule extends_trans [OF extends_emit [where og = og]]) (simp add: extends_same)
  have 2: "extends s (foldl (sentence_step cfg enc og) s xs)" for s xs
    by (rule extends_foldl) (rule extends_sentence_step)
  have 3: "extends st (foldl (sentence_step cfg enc og) ?st1 xs)" for xs
    by (rule extends_trans [OF 1 2])
  show ?thesis
    by (simp add: paragraph_step_def Let_def 2 3 extends_restart_emit extends_same)
qed

lemma extends_save_remaining: "extends st (save_remaining cfg og st)"
  by (simp add: save_remaining_def extends_emit extends_refl)

lemma section_step_extends:
  "\<exists>more. section_step cfg enc slug url cs sec = cs @ more \<and>
     map chunk_index more = [0..<length more]"
proof -
  let ?og = "\<lparr>of_heading = heading sec, of_slug = slug, of_url = url\<rparr>"
  let ?st0 = "\<lparr>current_chunk = [], current_tokens = 0, index = 0, chunks = cs\<rparr>"
  let ?st1 = "foldl (paragraph_step cfg enc ?og) ?st0 (split_into_paragraphs (content sec))"
  have "extends ?st0 ?st1"
    by (rule extends_foldl) (rule extends_paragraph_step)
  then have "extends ?st0 (save_remaining cfg ?og ?st1)"
    by (rule extends_trans) (rule extends_save_remaining)
  then obtain more where m: "chunks (save_remaining cfg ?og ?st1) = cs @ more"
    "map chunk_index more = [0..<index (save_remaining cfg ?og ?st1)]"
    by (auto simp: extends_def)
  from m(2) have "length more = index (save_remaining cfg ?og ?st1)"
    by (metis length_map length_upt minus_nat.diff_0)
  with m show ?thesis by (auto simp: section_step_def Let_def)
qed

lemma prepend_fields [simp]:
  "current_chunk (prepend cs st) = current_chunk st"
  "current_tokens (prepend cs st) = current_tokens st"
  "index (prepend cs st) = index st"
  "chunks (prepend cs st) = cs @ chunks st"
  by (simp_all add: prepend_def)

lemma emit_prepend: "emit og (prepend cs st) = prepend cs (emit og st)"
  by (simp add: emit_def prepend_def)

lemma restart_prepend: "restart enc ov u (prepend cs st) = prepend cs (restart enc ov u st)"
  by (simp add: restart_def prepend_def Let_def)

lemma append_unit_prepend: "append_unit u n (prepend cs st) = prepend cs (append_unit u n st)"
  by (simp add: append_unit_def prepend_def)

lemma reset_prepend:
  "(prepend cs st)\<lparr>current_chunk := [], current_tokens := 0\<rparr> =
   prepend cs (st\<lparr>current_chunk := [], current_tokens := 0\<rparr>)"
  by (simp add: prepend_def)

lemma sentence_step_prepend:
  "sentence_step cfg enc og (prepend cs st) sent = prepend cs (sentence_step cfg enc og st sent)"
  by (simp add: sentence_step_def Let_def emit_prepend restart_prepend append_unit_prepend)

lemma foldl_prepend:
  assumes "\<And>s x. f (prepend cs s) x = prepend cs (f s x)"
  shows "foldl f (prepend cs st) xs = prepend cs (foldl f st xs)"
  by (induction xs arbitrary: st) (simp_all add: assms)

lemma paragraph_step_prepend:
  "paragraph_step cfg enc og (prepend cs st) para = prepend cs (paragraph_step cfg enc og st para)"
  by (simp add: paragraph_step_def Let_def emit_prepend restart_prepend append_unit_prepend
        reset_prepend foldl_prepend [of "sentence_step cfg enc og", OF sentence_step_prepend])

lemma save_remaining_prepend:
  "save_remaining cfg og (prepend cs st) = prepend cs (save_remaining cfg og st)"
  by (simp add: save_remaining_def emit_prepend)

lemma section_step_append:
  "section_step cfg enc slug url cs sec = cs @ section_step cfg enc slug url [] sec"
proof -
  let ?og = "\<lparr>of_heading = heading sec, of_slug = slug, of_url = url\<rparr>"
  let ?st0 = "\<lparr>current_chunk = [], current_tokens = 0, index = 0, chunks = []\<rparr>"
  let ?ps = "split_into_paragraphs (content sec)"
  have 0: "\<lparr>current_chunk = [], current_tokens = 0, index = 0, chunks = cs\<rparr> = prepend cs ?st0"
    by (simp add: prepend_def)
  have "foldl (paragraph_step cfg enc ?og) (prepend cs ?st0) ?ps =
        prepend cs (foldl (paragraph_step cfg enc ?og) ?st0 ?ps)"
    by (rule foldl_prepend) (rule paragraph_step_prepend)
  then show ?thesis
    unfolding section_step_def Let_def 0 by (simp add: save_remaining_prepend)
qed

lemma foldl_section_step:
  "foldl (section_step cfg enc slug url) cs secs =
   cs @ concat (map (section_step cfg enc slug url []) secs)"
proof (induction secs arbitrary: cs)
  case Nil
  show ?case by simp
next
  case (Cons sec secs)
  show ?case
    using Cons [of "section_step cfg enc slug url cs sec"]
      section_step_append [of cfg enc slug url cs sec]
    by simp
qed

lemma create_chunks_concat:
  "create_chunks cfg enc markdown slug url =
   concat (map (section_step cfg enc slug url []) (sections_of markdown))"
  by (simp add: create_chunks_def foldl_section_step)


subsection \<open>The upper bound\<close>

lemma buffer_ok_cong:
  "current_chunk st' = current_chunk st \<Longrightarrow> current_tokens st' = current_tokens st \<Longrightarrow>
   buffer_ok cfg enc us st' = buffer_ok cfg enc us st"
  by (simp add: buffer_ok_def)

lemma state_ok_emit: "state_ok cfg enc us st \<Longrightarrow> state_ok cfg enc us (emit og st)"
proof -
  assume a: "state_ok cfg enc us st"
  let ?c = "\<lparr>chunk_text = join blank_line (current_chunk st), tokens = current_tokens st,
         chunk_heading = of_heading og, chunk_index = index st,
         article_slug = of_slug og, source_url = of_url og\<rparr>"
  from a have "buffer_ok cfg enc us st" by (simp add: state_ok_def)
  then consider "current_tokens st \<le> MAX_CHUNK_TOKENS cfg"
    | u where "current_tokens st = count_tokens enc (join blank_line (current_chunk st))"
        "u \<in> set us" "current_chunk st = [u]" "MAX_CHUNK_TOKENS cfg < count_tokens enc u"
    | u ov where "current_tokens st = count_tokens enc (join blank_line (current_chunk st))"
        "u \<in> set us" "ov \<noteq> []" "current_chunk st = [ov, u]"
    unfolding buffer_ok_def by blast
  then have "chunk_ok cfg enc us ?c"
  proof cases
    case 1
    then show ?thesis by (simp add: chunk_ok_def)
  next
    case 2
    then have "oversized_alone cfg enc us ?c" by (simp add: oversized_alone_def)
    then show ?thesis by (simp add: chunk_ok_def)
  next
    case 3
    then have "overlap_then_unit enc us ?c"
      unfolding overlap_then_unit_def by (intro conjI bexI [of _ u] exI [of _ ov]) simp_all
    then show ?thesis by (simp add: chunk_ok_def)
  qed
  moreover have "buffer_ok cfg enc us (emit og st) = buffer_ok cfg enc us st"
    by (rule buffer_ok_cong) simp_all
  ultimately show ?thesis using a by (simp add: state_ok_def)
qed

lemma state_ok_reset:
  "state_ok cfg enc us st \<Longrightarrow> state_ok cfg enc us (st\<lparr>current_chunk := [], current_tokens := 0\<rparr>)"
  by (simp add: state_ok_def buffer_ok_def)

lemma state_ok_restart:
  "state_ok cfg enc us st \<Longrightarrow> u \<in> set us \<Longrightarrow> state_ok cfg enc us (restart enc ov u st)"
  by (cases "count_tokens enc u \<le> MAX_CHUNK_TOKENS cfg") (auto simp: state_ok_def buffer_ok_def)

lemma state_ok_append:
  assumes "state_ok cfg enc us st" and "u \<in> set us"
    and "\<not> (current_tokens st + count_tokens enc u > TARGET_TOKENS cfg \<and> current_chunk st \<noteq> [])"
    and "TARGET_TOKENS cfg \<le> MAX_CHUNK_TOKENS cfg"
  shows "state_ok cfg enc us (append_unit u (count_tokens enc u) st)"
proof (cases "current_chunk st = []")
  case True
  with assms(1) have "current_tokens st = 0" by (simp add: state_ok_def buffer_ok_def)
  with True assms(1,2) show ?thesis
    by (cases "count_tokens enc u \<le> MAX_CHUNK_TOKENS cfg") (auto simp: state_ok_def buffer_ok_def)
next
  case False
  with assms(3,4) have "current_tokens st + count_tokens enc u \<le> MAX_CHUNK_TOKENS cfg" by simp
  with assms(1) show ?thesis by (simp add: state_ok_def buffer_ok_def)
qed

lemma state_ok_sentence_step:
  assumes "state_ok cfg enc us st" and "sent \<in> set us"
    and "TARGET_TOKENS cfg \<le> MAX_CHUNK_TOKENS cfg"
  shows "state_ok cfg enc us (sentence_step cfg enc og st sent)"
  using assms
  by (simp add: sentence_step_def Let_def state_ok_restart state_ok_emit state_ok_append
        del: restart_fields emit_fields append_unit_fields)

lemma state_ok_paragraph_step:
  assumes "state_ok cfg enc us st"
    and "if count_tokens enc para > MAX_CHUNK_TOKENS cfg
         then set (re_split_sentences para) \<subseteq> set us else para \<in> set us"
    and "TARGET_TOKENS cfg \<le> MAX_CHUNK_TOKENS cfg"
  shows "state_ok cfg enc us (paragraph_step cfg enc og st para)"
proof (cases "count_tokens enc para > MAX_CHUNK_TOKENS cfg")
  case True
  let ?st1 = "if current_chunk st \<noteq> []
              then (emit og st)\<lparr>current_chunk := [], current_tokens := 0\<rparr> else st"
  have "state_ok cfg enc us ?st1"
    using assms(1) by (simp add: state_ok_reset state_ok_emit del: emit_fields)
  then have "state_ok cfg enc us (foldl (sentence_step cfg enc og) ?st1 (re_split_sentences para))"
  proof (rule foldl_invariant)
    fix s x assume "state_ok cfg enc us s" and "x \<in> set (re_split_sentences para)"
    with True assms(2,3) show "state_ok cfg enc us (sentence_step cfg enc og s x)"
      by (auto intro: state_ok_sentence_step)
  qed
  with True show ?thesis by (simp add: paragraph_step_def Let_def)
next
  case False
  with assms(2) have "para \<in> set us" by simp
  with False assms(1,3) show ?thesis
    by (simp add: paragraph_step_def Let_def state_ok_restart state_ok_emit state_ok_append
          del: restart_fields emit_fields append_unit_fields)
qed

lemma units_member:
  "p \<in> set paragraphs \<Longrightarrow>
   (if count_tokens enc p > MAX_CHUNK_TOKENS cfg
    then set (re_split_sentences p) \<subseteq> set (units cfg enc paragraphs)
    else p \<in> set (units cfg enc paragraphs))"
  by (auto simp: units_def)

lemma state_ok_save_remaining:
  "state_ok cfg enc us st \<Longrightarrow> state_ok cfg enc us (save_remaining cfg og st)"
  by (simp add: save_remaining_def state_ok_emit del: emit_fields)

lemma section_step_chunk_ok:
  assumes "TARGET_TOKENS cfg \<le> MAX_CHUNK_TOKENS cfg"
    and "c \<in> set (section_step cfg enc slug url [] sec)"
  shows "chunk_ok cfg enc (units cfg enc (split_into_paragraphs (content sec))) c"
proof -
  let ?og = "\<lparr>of_heading = heading sec, of_slug = slug, of_url = url\<rparr>"
  let ?st0 = "\<lparr>current_chunk = [], current_tokens = 0, index = 0, chunks = []\<rparr>"
  let ?ps = "split_into_paragraphs (content sec)"
  let ?us = "units cfg enc ?ps"
  have "state_ok cfg enc ?us ?st0" by (simp add: state_ok_def buffer_ok_def)
  then have "state_ok cfg enc ?us (foldl (paragraph_step cfg enc ?og) ?st0 ?ps)"
  proof (rule foldl_invariant)
    fix s x assume "state_ok cfg enc ?us s" and "x \<in> set ?ps"
    then show "state_ok cfg enc ?us (paragraph_step cfg enc ?og s x)"
      using assms(1) units_member [where p = x and paragraphs = ?ps and enc = enc and cfg = cfg] by (intro state_ok_paragraph_step)
  qed
  then have "state_ok cfg enc ?us (save_remaining cfg ?og (foldl (paragraph_step cfg enc ?og) ?st0 ?ps))"
    by (rule state_ok_save_remaining)
  with assms(2) show ?thesis by (simp add: state_ok_def section_step_def Let_def)
qed


subsection \<open>The lower bound without sentence fallback\<close>

lemma all_at_least_paragraph_step:
  assumes "all_at_least cfg st" and "count_tokens enc para \<le> MAX_CHUNK_TOKENS cfg"
  shows "all_at_least cfg (paragraph_step cfg enc og st para)"
  using assms by (simp add: all_at_least_def paragraph_step_def Let_def)

lemma all_at_least_save_remaining:
  "all_at_least cfg st \<Longrightarrow> all_at_least cfg (save_remaining cfg og st)"
  by (simp add: all_at_least_def save_remaining_def)

lemma section_step_at_least:
  assumes "\<forall>p \<in> set (split_into_paragraphs (content sec)).
             count_tokens enc p \<le> MAX_CHUNK_TOKENS cfg"
    and "c \<in> set (section_step cfg enc slug url [] sec)"
  shows "MIN_CHUNK_TOKENS cfg \<le> tokens c"
proof -
  let ?og = "\<lparr>of_heading = heading sec, of_slug = slug, of_url = url\<rparr>"
  let ?st0 = "\<lparr>current_chunk = [], current_tokens = 0, index = 0, chunks = []\<rparr>"
  let ?ps = "split_into_paragraphs (content sec)"
  have "all_at_least cfg ?st0" by (simp add: all_at_least_def)
  then have "all_at_least cfg (foldl (paragraph_step cfg enc ?og) ?st0 ?ps)"
  proof (rule foldl_invariant)
    fix s x assume "all_at_least cfg s" and "x \<in> set ?ps"
    with assms(1) show "all_at_least cfg (paragraph_step cfg enc ?og s x)"
      by (intro all_at_least_paragraph_step) auto
  qed
  then have "all_at_least cfg (save_remaining cfg ?og (foldl (paragraph_step cfg enc ?og) ?st0 ?ps))"
    by (rule all_at_least_save_remaining)
  with assms(2) show ?thesis by (simp add: all_at_least_def section_step_def Let_def)
qed

subsection \<open>Sections that stay below the minimum\<close>

lemma small_paragraphs_only_append:
  assumes "MIN_CHUNK_TOKENS cfg \<le> TARGET_TOKENS cfg"
    and "TARGET_TOKENS cfg \<le> MAX_CHUNK_TOKENS cfg"
    and "chunks st = []"
    and "current_tokens st + sum_list (map (count_tokens enc) ps) < MIN_CHUNK_TOKENS cfg"
  shows "chunks (foldl (paragraph_step cfg enc og) st ps) = [] \<and>
         current_tokens (foldl (paragraph_step cfg enc og) st ps) =
           current_tokens st + sum_list (map (count_tokens enc) ps)"
  using assms(3,4)
proof (induction ps arbitrary: st)
  case Nil
  then show ?case by simp
next
  case (Cons p ps)
  from Cons.prems(2) assms(1,2)
  have step: "paragraph_step cfg enc og st p = append_unit p (count_tokens enc p) st"
    by (simp add: paragraph_step_def Let_def)
  have "chunks (append_unit p (count_tokens enc p) st) = []"
    using Cons.prems(1) by simp
  moreover have "current_tokens (append_unit p (count_tokens enc p) st) +
      sum_list (map (count_tokens enc) ps) < MIN_CHUNK_TOKENS cfg"
    using Cons.prems(2) by simp
  ultimately show ?case
    using Cons.IH [of "append_unit p (count_tokens enc p) st"] step by simp
qed

lemma small_section_no_chunks:
  assumes "MIN_CHUNK_TOKENS cfg \<le> TARGET_TOKENS cfg"
    and "TARGET_TOKENS cfg \<le> MAX_CHUNK_TOKENS cfg"
    and "sum_list (map (count_tokens enc) (split_into_paragraphs (content sec)))
           < MIN_CHUNK_TOKENS cfg"
  shows "section_step cfg enc slug url [] sec = []"
proof -
  let ?og = "\<lparr>of_heading = heading sec, of_slug = slug, of_url = url\<rparr>"
  let ?st0 = "\<lparr>current_chunk = [], current_tokens = 0, index = 0, chunks = []\<rparr>"
  let ?ps = "split_into_paragraphs (content sec)"
  let ?st1 = "foldl (paragraph_step cfg enc ?og) ?st0 ?ps"
  have "chunks ?st1 = [] \<and>
        current_tokens ?st1 = current_tokens ?st0 + sum_list (map (count_tokens enc) ?ps)"
    using assms by (intro small_paragraphs_only_append) simp_all
  with assms(3) have "chunks (save_remaining cfg ?og ?st1) = []"
    by (simp add: save_remaining_def)
  then show ?thesis by (simp add: section_step_def Let_def)
qed

text \<open>
  The same for the count of the whole content, under an encoding that never gives the
  paragraphs of a text more tokens in all than the text.
\<close>

lemma small_content_no_chunks:
  assumes "MIN_CHUNK_TOKENS cfg \<le> TARGET_TOKENS cfg"
    and "TARGET_TOKENS cfg \<le> MAX_CHUNK_TOKENS cfg"
    and "sum_list (map (count_tokens enc) (split_into_paragraphs (content sec)))
           \<le> count_tokens enc (content sec)"
    and "count_tokens enc (content sec) < MIN_CHUNK_TOKENS cfg"
  shows "section_step cfg enc slug url [] sec = []"
  using assms by (intro small_section_no_chunks) simp_all

subsection \<open>Lines and sections of a document without headings\<close>

lemma cons_hd_not_Nil: "cons_hd c ls \<noteq> []"
  by (cases ls) simp_all

lemma split_newline_not_Nil: "split_newline s \<noteq> []"
  by (cases s) (simp_all add: cons_hd_not_Nil)

lemma cons_hd_concat:
  "ls \<noteq> [] \<Longrightarrow> concat (map (\<lambda>l. l @ [nl]) (cons_hd c ls)) = c # concat (map (\<lambda>l. l @ [nl]) ls)"
  by (cases ls) simp_all

lemma split_newline_unlines: "concat (map (\<lambda>l. l @ [nl]) (split_newline s)) = s @ [nl]"
  by (induction s) (simp_all add: cons_hd_concat split_newline_not_Nil)

lemma heading_loop_no_heading:
  "\<forall>line \<in> set lines. heading_match line = None \<Longrightarrow>
   heading_loop secs cur lines =
     (secs, cur\<lparr>content := content cur @ concat (map (\<lambda>l. l @ [nl]) lines)\<rparr>)"
  by (induction lines arbitrary: cur) simp_all

lemma isspace_nl: "isspace nl"
  by (simp add: isspace_def nl_def)

lemma strip_Nil_iff: "strip s = [] \<longleftrightarrow> list_all isspace s"
proof
  assume "strip s = []"
  then have a: "\<forall>c \<in> set (dropWhile isspace s). isspace c"
    by (simp add: strip_def)
  have "dropWhile isspace s = []"
  proof (rule ccontr)
    assume n: "dropWhile isspace s \<noteq> []"
    then have "\<not> isspace (hd (dropWhile isspace s))" by (rule hd_dropWhile)
    moreover have "hd (dropWhile isspace s) \<in> set (dropWhile isspace s)"
      using n by (rule hd_in_set)
    ultimately show False using a by blast
  qed
  then show "list_all isspace s" by (simp add: list_all_iff)
next
  assume "list_all isspace s"
  then have "dropWhile isspace s = []" by (simp add: list_all_iff)
  then show "strip s = []" by (simp only: strip_def dropWhile.simps rev.simps)
qed

lemma split_by_heading_no_heading:
  assumes "\<forall>line \<in> set (split_newline markdown). heading_match line = None"
  shows "split_by_heading markdown =
     (if list_all isspace markdown then []
      else [\<lparr>heading = [], heading_level = None, content = markdown @ [nl]\<rparr>])"
  using assms
  by (simp add: split_by_heading_def heading_loop_no_heading split_newline_unlines
        strip_Nil_iff isspace_nl)

subsection \<open>Words\<close>

lemma split_ws_from_words:
  "\<forall>c \<in> set w0. \<not> isspace c \<Longrightarrow> w \<in> set (split_ws_from w0 s) \<Longrightarrow>
   w \<noteq> [] \<and> (\<forall>c \<in> set w. \<not> isspace c)"
proof (induction s arbitrary: w0)
  case Nil
  then show ?case by (simp split: if_splits)
next
  case (Cons a s)
  show ?case
  proof (cases "isspace a")
    case True
    with Cons.prems Cons.IH [of "[]"] show ?thesis by (auto split: if_splits)
  next
    case False
    with Cons.prems Cons.IH [of "w0 @ [a]"] show ?thesis by auto
  qed
qed

lemma split_ws_from_append:
  "\<forall>c \<in> set u. \<not> isspace c \<Longrightarrow> split_ws_from w (u @ s) = split_ws_from (w @ u) s"
  by (induction u arbitrary: w) simp_all

lemma isspace_space: "isspace (CHR '' '')"
  by (simp add: isspace_def)

lemma split_ws_join:
  "\<forall>w \<in> set ws. w \<noteq> [] \<and> (\<forall>c \<in> set w. \<not> isspace c) \<Longrightarrow>
   split_ws (join '' '' ws) = ws"
proof (induction "'' ''" ws rule: join.induct)
  case 1
  show ?case by (simp add: split_ws_def)
next
  case (2 x)
  then have "split_ws_from [] (x @ []) = split_ws_from ([] @ x) []"
    by (intro split_ws_from_append) simp
  with 2 show ?case by (simp add: split_ws_def)
next
  case (3 x y ys)
  then have ih: "split_ws_from [] (join '' '' (y # ys)) = y # ys"
    by (simp add: split_ws_def)
  have "split_ws_from [] (x @ CHR '' '' # join '' '' (y # ys)) =
        split_ws_from ([] @ x) (CHR '' '' # join '' '' (y # ys))"
    using "3.prems" by (intro split_ws_from_append) simp
  with "3.prems" ih show ?case by (simp add: split_ws_def isspace_space)
qed

lemma split_ws_join_split_ws: "split_ws (join '' '' (split_ws s)) = split_ws s"
proof (rule split_ws_join, rule ballI)
  fix w assume "w \<in> set (split_ws s)"
  then have "w \<in> set (split_ws_from [] s)" by (simp add: split_ws_def)
  moreover have "\<forall>c \<in> set ([]::string). \<not> isspace c" by simp
  ultimately show "w \<noteq> [] \<and> (\<forall>c \<in> set w. \<not> isspace c)"
    by (rule split_ws_from_words [rotated])
qed

lemma extends_chunks: "extends st st' \<Longrightarrow> \<exists>more. chunks st' = chunks st @ more"
  by (auto simp: extends_def)

subsection \<open>Only the counts of the encoding matter\<close>

lemma same_counts:
  assumes "\<forall>t. count_tokens enc1 t = count_tokens enc2 t"
  shows "create_chunks cfg enc1 = create_chunks cfg enc2"
proof -
  from assms have c: "count_tokens enc1 = count_tokens enc2" by (simp add: fun_eq_iff)
  have t: "trim_overlap cfg enc1 = trim_overlap cfg enc2"
    by (simp add: fun_eq_iff trim_overlap_def Let_def c)
  have r: "restart enc1 = restart enc2"
    by (simp add: fun_eq_iff restart_def Let_def c)
  have s: "sentence_step cfg enc1 = sentence_step cfg enc2"
    by (simp add: fun_eq_iff sentence_step_def Let_def c t r)
  have p: "paragraph_step cfg enc1 = paragraph_step cfg enc2"
    by (simp add: fun_eq_iff paragraph_step_def Let_def c t r s)
  have q: "section_step cfg enc1 = section_step cfg enc2"
    by (simp add: fun_eq_iff section_step_def Let_def p)
  show ?thesis unfolding fun_eq_iff create_chunks_def q by simp
qed

subsection \<open>A document of four plain paragraphs\<close>

lemma quad_encoding_length: "length (quad_encoding s) = (length s + 3) div 4"
  by (induction s rule: quad_encoding.induct) simp_all

lemma split_newline_chars: "l \<in> set (split_newline s) \<Longrightarrow> set l \<subseteq> set s"
proof (induction s arbitrary: l)
  case Nil
  then show ?case by simp
next
  case (Cons c cs)
  show ?case
  proof (cases "c = nl")
    case True
    with Cons show ?thesis by auto
  next
    case False
    obtain k ks where k: "split_newline cs = k # ks"
      using split_newline_not_Nil [of cs] by (cases "split_newline cs") auto
    with False Cons.prems have "l = c # k \<or> l \<in> set ks" by auto
    with k Cons.IH [of k] Cons.IH [of l] show ?thesis by auto
  qed
qed

lemma heading_groups_hash:
  "heading_groups (CHR ''#'' # m) line = Some g \<Longrightarrow> CHR ''#'' \<in> set line"
  by (cases line) (auto simp: heading_groups_def split: if_splits)

lemma no_hash_no_heading:
  assumes "CHR ''#'' \<notin> set markdown"
  shows "\<forall>line \<in> set (split_newline markdown). heading_match line = None"
proof
  fix line assume "line \<in> set (split_newline markdown)"
  with assms have "CHR ''#'' \<notin> set line" using split_newline_chars by blast
  then have "heading_groups ''##'' line = None" "heading_groups ''###'' line = None"
    using heading_groups_hash by (metis not_Some_eq)+
  then show "heading_match line = None" by (simp add: heading_match_def)
qed

lemma re_split_blank_not_Nil: "re_split_blank s \<noteq> []"
  by (cases s) (simp_all add: cons_hd_not_Nil split: option.splits)

lemma re_split_blank_prefix:
  "nl \<notin> set xs \<Longrightarrow>
   re_split_blank (xs @ ys) = (xs @ hd (re_split_blank ys)) # tl (re_split_blank ys)"
proof (induction xs)
  case Nil
  show ?case by (simp add: re_split_blank_not_Nil)
next
  case (Cons a xs)
  then have "a \<noteq> nl" by auto
  with Cons show ?case by simp
qed

lemma re_split_blank_line:
  assumes "nl \<notin> set xs" and "ys \<noteq> []" and "\<not> isspace (hd ys)"
  shows "re_split_blank (xs @ nl # nl # ys) = xs # re_split_blank ys"
proof -
  from assms(2,3) obtain c cs where ys: "ys = c # cs" "\<not> isspace c" by (cases ys) auto
  then have "blank_sep (nl # ys) = Some ys"
    by (simp add: blank_sep_def isspace_nl)
  then have "re_split_blank (nl # nl # ys) = [] # re_split_blank ys" by simp
  with assms(1) show ?thesis
    using re_split_blank_prefix [of xs "nl # nl # ys"] by simp
qed

lemma re_split_blank_last:
  assumes "nl \<notin> set xs"
  shows "re_split_blank (xs @ [nl]) = [xs @ [nl]]"
proof -
  have "re_split_blank [nl] = [[nl]]" by (simp add: blank_sep_def)
  with assms show ?thesis using re_split_blank_prefix [of xs "[nl]"] by simp
qed

lemma dropWhile_none: "\<forall>c \<in> set s. \<not> P c \<Longrightarrow> dropWhile P s = s"
  by (cases s) simp_all

lemma strip_plain: "\<forall>c \<in> set s. \<not> isspace c \<Longrightarrow> strip s = s"
  by (simp add: strip_def dropWhile_none)

lemma strip_plain_nl: "\<forall>c \<in> set s. \<not> isspace c \<Longrightarrow> strip (s @ [nl]) = s"
proof -
  assume a: "\<forall>c \<in> set s. \<not> isspace c"
  then have "dropWhile isspace (s @ [nl]) = (if s = [] then [] else s @ [nl])"
    by (cases s) (simp_all add: isspace_nl)
  moreover have "dropWhile isspace (rev s) = rev s" using a by (simp add: dropWhile_none)
  ultimately show ?thesis by (simp add: strip_def isspace_nl)
qed

lemma four_paragraphs:
  assumes plain: "\<forall>c \<in> set p. \<not> isspace c \<and> c \<noteq> CHR ''#''" and ne: "p \<noteq> []"
    and cnt: "count_tokens enc p = 50"
  shows "sections_of (p @ blank_line @ p @ blank_line @ p @ blank_line @ p) =
           [\<lparr>heading = [], heading_level = None,
             content = (p @ blank_line @ p @ blank_line @ p @ blank_line @ p) @ [nl]\<rparr>]"
    and "create_chunks module_config enc
           (p @ blank_line @ p @ blank_line @ p @ blank_line @ p) slug url =
           [\<lparr>chunk_text = p @ blank_line @ p @ blank_line @ p @ blank_line @ p, tokens = 200,
             chunk_heading = [], chunk_index = 0, article_slug = slug, source_url = url\<rparr>]"
proof -
  let ?md = "p @ blank_line @ p @ blank_line @ p @ blank_line @ p"
  have nlp: "nl \<notin> set p" using plain isspace_nl by blast
  have sp: "\<forall>c \<in> set p. \<not> isspace c" using plain by blast
  have hd_p: "\<not> isspace (hd (p @ r))" for r using ne sp by (cases p) auto
  have "CHR ''#'' \<notin> set ?md" using plain by (auto simp: blank_line_def nl_def)
  then have "\<forall>line \<in> set (split_newline ?md). heading_match line = None"
    by (rule no_hash_no_heading)
  moreover have "\<not> list_all isspace ?md" using ne sp by (cases p) auto
  ultimately have sbh: "split_by_heading ?md =
      [\<lparr>heading = [], heading_level = None, content = ?md @ [nl]\<rparr>]"
    by (simp add: split_by_heading_no_heading)
  then show secs: "sections_of ?md =
      [\<lparr>heading = [], heading_level = None, content = ?md @ [nl]\<rparr>]"
    by (simp add: sections_of_def)
  have "re_split_blank (p @ blank_line @ p @ blank_line @ p @ blank_line @ p @ [nl]) =
      [p, p, p, p @ [nl]]"
    using nlp ne hd_p
    by (simp add: blank_line_def re_split_blank_line re_split_blank_last)
  then have ps: "split_into_paragraphs
      (p @ blank_line @ p @ blank_line @ p @ blank_line @ p @ [nl]) = [p, p, p, p]"
    using ne sp by (simp add: split_into_paragraphs_def strip_plain strip_plain_nl)
  show "create_chunks module_config enc ?md slug url =
           [\<lparr>chunk_text = ?md, tokens = 200,
             chunk_heading = [], chunk_index = 0, article_slug = slug, source_url = url\<rparr>]"
    unfolding create_chunks_def secs
    by (simp add: section_step_def ps paragraph_step_def cnt module_config_def
          save_remaining_def Let_def)
qed

subsection \<open>The overlap text where the target is at least one word\<close>

lemma split_ws_words:
  "w \<in> set (split_ws s) \<Longrightarrow> w \<noteq> [] \<and> (\<forall>c \<in> set w. \<not> isspace c)"
proof -
  assume "w \<in> set (split_ws s)"
  then have "w \<in> set (split_ws_from [] s)" by (simp add: split_ws_def)
  moreover have "\<forall>c \<in> set ([]::string). \<not> isspace c" by simp
  ultimately show ?thesis by (rule split_ws_from_words [rotated])
qed

lemma trim_overlap_last_words:
  assumes "OVERLAP_TOKENS cfg < count_tokens enc src"
    and "0 < (OVERLAP_TOKENS cfg * length (split_ws src)) div count_tokens enc src"
  shows "split_ws (trim_overlap cfg enc src) =
           drop (length (split_ws src) -
                 (OVERLAP_TOKENS cfg * length (split_ws src)) div count_tokens enc src)
             (split_ws src)"
proof -
  let ?k = "(OVERLAP_TOKENS cfg * length (split_ws src)) div count_tokens enc src"
  let ?ws = "drop (length (split_ws src) - ?k) (split_ws src)"
  have "trim_overlap cfg enc src = join '' '' ?ws"
    using assms by (simp add: trim_overlap_def Let_def last_slice_def)
  moreover have "split_ws (join '' '' ?ws) = ?ws"
  proof (rule split_ws_join, rule ballI)
    fix w assume "w \<in> set ?ws"
    then have "w \<in> set (split_ws src)" by (rule in_set_dropD)
    then show "w \<noteq> [] \<and> (\<forall>c \<in> set w. \<not> isspace c)" by (rule split_ws_words)
  qed
  ultimately show ?thesis by simp
qed

section \<open>The claims\<close>




text \<open>
  C2.  A flush is to emit a chunk only when the running total is at least
  \<open>MIN_CHUNK_TOKENS\<close>.  The flush before the sentence fallback and the flush inside the
  sentence loop emit without that test: under an encoding of 100 tokens a word, the
  paragraph \<open>a\<close> and the sentence \<open>b\<close> are emitted with 100 tokens each, below the
  minimum of 200.
\<close>

theorem flush_below_minimum:
  "MIN_CHUNK_TOKENS module_config = 200 \<and>
   MAX_CHUNK_TOKENS module_config = 800 \<and>
   map (count_tokens (word_encoding 100)) [''a'', ''b. c d e f g h i j''] = [100, 900] \<and>
   re_split_sentences ''b. c d e f g h i j'' = [''b'', ''c d e f g h i j''] \<and>
   create_chunks module_config (word_encoding 100)
     ''a\<newline>\<newline>b. c d e f g h i j'' ''slug'' ''url'' =
     [\<lparr>chunk_text = ''a'', tokens = 100, chunk_heading = [],
       chunk_index = 0, article_slug = ''slug'', source_url = ''url''\<rparr>,
      \<lparr>chunk_text = ''b'', tokens = 100, chunk_heading = [],
       chunk_index = 1, article_slug = ''slug'', source_url = ''url''\<rparr>,
      \<lparr>chunk_text = ''b\<newline>\<newline>c d e f g h i j'', tokens = 900, chunk_heading = [],
       chunk_index = 2, article_slug = ''slug'', source_url = ''url''\<rparr>]"
  by code_simp



text \<open>
  C4 (as amended).  A sentence unit whose count exceeds \<open>MAX_CHUNK_TOKENS\<close> is never
  split further.  Arriving at an empty buffer it becomes the buffer, alone, with its own
  count as the running total and nothing emitted; such a buffer is emitted as a chunk on
  its own by whatever comes next, be it a sentence, a paragraph or the end of the section.
  Arriving at a non-empty buffer, it has that buffer emitted and starts the new one behind
  the overlap text, when that text is not empty.
\<close>

theorem oversized_sentence_unit:
  assumes "MAX_CHUNK_TOKENS module_config < count_tokens enc sent"
  shows "(current_chunk st = [] \<and> current_tokens st = 0 \<longrightarrow>
            current_chunk (sentence_step module_config enc og st sent) = [sent] \<and>
            current_tokens (sentence_step module_config enc og st sent) = count_tokens enc sent \<and>
            chunks (sentence_step module_config enc og st sent) = chunks st \<and>
            index (sentence_step module_config enc og st sent) = index st) \<and>
         (current_chunk st = [sent] \<and> current_tokens st = count_tokens enc sent \<longrightarrow>
            chunks (sentence_step module_config enc og st next_sent) =
              chunks st @
                [\<lparr>chunk_text = sent, tokens = count_tokens enc sent,
                  chunk_heading = of_heading og, chunk_index = index st,
                  article_slug = of_slug og, source_url = of_url og\<rparr>] \<and>
            chunks (save_remaining module_config og st) =
              chunks st @
                [\<lparr>chunk_text = sent, tokens = count_tokens enc sent,
                  chunk_heading = of_heading og, chunk_index = index st,
                  article_slug = of_slug og, source_url = of_url og\<rparr>] \<and>
            (\<exists>more. chunks (paragraph_step module_config enc og st para) =
              chunks st @
                \<lparr>chunk_text = sent, tokens = count_tokens enc sent,
                  chunk_heading = of_heading og, chunk_index = index st,
                  article_slug = of_slug og, source_url = of_url og\<rparr> # more)) \<and>
         (current_chunk st \<noteq> [] \<longrightarrow>
            chunks (sentence_step module_config enc og st sent) =
              chunks st @
                [\<lparr>chunk_text = join blank_line (current_chunk st), tokens = current_tokens st,
                  chunk_heading = of_heading og, chunk_index = index st,
                  article_slug = of_slug og, source_url = of_url og\<rparr>] \<and>
            current_chunk (sentence_step module_config enc og st sent) =
              (let overlap_text =
                     trim_overlap module_config enc
                       (if 2 \<le> length (current_chunk st)
                        then join blank_line (last_slice 2 (current_chunk st))
                        else last (current_chunk st))
               in if overlap_text \<noteq> [] then [overlap_text, sent] else [sent]))"
proof (intro conjI impI)
  assume e: "current_chunk st = [] \<and> current_tokens st = 0"
  then show "current_chunk (sentence_step module_config enc og st sent) = [sent]"
    and "current_tokens (sentence_step module_config enc og st sent) = count_tokens enc sent"
    and "chunks (sentence_step module_config enc og st sent) = chunks st"
    and "index (sentence_step module_config enc og st sent) = index st"
    by (simp_all add: sentence_step_def)
next
  let ?C = "\<lparr>chunk_text = sent, tokens = count_tokens enc sent,
                  chunk_heading = of_heading og, chunk_index = index st,
                  article_slug = of_slug og, source_url = of_url og\<rparr>"
  assume a: "current_chunk st = [sent] \<and> current_tokens st = count_tokens enc sent"
  with assms have big: "TARGET_TOKENS module_config < current_tokens st"
    "MIN_CHUNK_TOKENS module_config \<le> current_tokens st"
    by (simp_all add: module_config_def)
  from a have em: "chunks (emit og st) = chunks st @ [?C]" by simp
  show "chunks (sentence_step module_config enc og st next_sent) = chunks st @ [?C]"
    using a big by (simp add: sentence_step_def Let_def)
  show "chunks (save_remaining module_config og st) = chunks st @ [?C]"
    using a big by (simp add: save_remaining_def)
  show "\<exists>more. chunks (paragraph_step module_config enc og st para) = chunks st @ ?C # more"
  proof (cases "count_tokens enc para > MAX_CHUNK_TOKENS module_config")
    case True
    let ?st1 = "(emit og st)\<lparr>current_chunk := [], current_tokens := 0\<rparr>"
    have "extends ?st1 (foldl (sentence_step module_config enc og) ?st1 (re_split_sentences para))"
      by (rule extends_foldl) (rule extends_sentence_step)
    then obtain more where
      "chunks (foldl (sentence_step module_config enc og) ?st1 (re_split_sentences para)) =
         chunks ?st1 @ more"
      using extends_chunks by blast
    with True a em show ?thesis by (simp add: paragraph_step_def Let_def)
  next
    case False
    with a big show ?thesis by (simp add: paragraph_step_def Let_def)
  qed
next
  assume n: "current_chunk st \<noteq> []"
  from assms have "TARGET_TOKENS module_config < current_tokens st + count_tokens enc sent"
    by (simp add: module_config_def)
  with n show "chunks (sentence_step module_config enc og st sent) =
              chunks st @
                [\<lparr>chunk_text = join blank_line (current_chunk st), tokens = current_tokens st,
                  chunk_heading = of_heading og, chunk_index = index st,
                  article_slug = of_slug og, source_url = of_url og\<rparr>]"
    and "current_chunk (sentence_step module_config enc og st sent) =
              (let overlap_text =
                     trim_overlap module_config enc
                       (if 2 \<le> length (current_chunk st)
                        then join blank_line (last_slice 2 (current_chunk st))
                        else last (current_chunk st))
               in if overlap_text \<noteq> [] then [overlap_text, sent] else [sent])"
    by (simp_all add: sentence_step_def Let_def)
qed

text \<open>
  C4, three instances under an encoding of 100 tokens a word: a sentence of 900 tokens
  arriving at an empty buffer, left alone in the buffer at the end of the section, and
  arriving at the buffer \<open>[a]\<close>.
\<close>

theorem oversized_sentence_unit_witness:
  "MAX_CHUNK_TOKENS module_config < count_tokens (word_encoding 100) ''b c d e f g h i j'' \<and>
   current_chunk
     (sentence_step module_config (word_encoding 100)
        \<lparr>of_heading = ''H'', of_slug = ''slug'', of_url = ''url''\<rparr>
        \<lparr>current_chunk = [], current_tokens = 0, index = 0, chunks = []\<rparr>
        ''b c d e f g h i j'') = [''b c d e f g h i j''] \<and>
   chunks
     (save_remaining module_config
        \<lparr>of_heading = ''H'', of_slug = ''slug'', of_url = ''url''\<rparr>
        \<lparr>current_chunk = [''b c d e f g h i j''], current_tokens = 900, index = 0,
         chunks = []\<rparr>) =
     [\<lparr>chunk_text = ''b c d e f g h i j'', tokens = 900, chunk_heading = ''H'',
       chunk_index = 0, article_slug = ''slug'', source_url = ''url''\<rparr>] \<and>
   current_chunk
     (sentence_step module_config (word_encoding 100)
        \<lparr>of_heading = ''H'', of_slug = ''slug'', of_url = ''url''\<rparr>
        \<lparr>current_chunk = [''a''], current_tokens = 100, index = 0, chunks = []\<rparr>
        ''b c d e f g h i j'') = [''a'', ''b c d e f g h i j'']"
proof -
  let ?og = "\<lparr>of_heading = ''H'', of_slug = ''slug'', of_url = ''url''\<rparr>"
  let ?s = "''b c d e f g h i j''"
  let ?st0 = "\<lparr>current_chunk = [], current_tokens = 0, index = 0, chunks = []\<rparr>"
  let ?st1 = "\<lparr>current_chunk = [?s], current_tokens = 900, index = 0, chunks = []\<rparr>"
  let ?st2 = "\<lparr>current_chunk = [''a''], current_tokens = 100, index = 0, chunks = []\<rparr>"
  have h: "MAX_CHUNK_TOKENS module_config < count_tokens (word_encoding 100) ?s"
    by code_simp
  have n: "count_tokens (word_encoding 100) ?s = 900" by code_simp
  have t: "trim_overlap module_config (word_encoding 100) ''a'' = ''a''" by code_simp
  have 1: "current_chunk (sentence_step module_config (word_encoding 100) ?og ?st0 ?s) = [?s]"
    using oversized_sentence_unit [OF h, where st = ?st0 and og = ?og] by simp
  have 2: "chunks (save_remaining module_config ?og ?st1) =
     [\<lparr>chunk_text = ?s, tokens = 900, chunk_heading = ''H'',
       chunk_index = 0, article_slug = ''slug'', source_url = ''url''\<rparr>]"
    using oversized_sentence_unit [OF h, where st = ?st1 and og = ?og] n by simp
  have 3: "current_chunk (sentence_step module_config (word_encoding 100) ?og ?st2 ?s) =
     [''a'', ?s]"
    using oversized_sentence_unit [OF h, where st = ?st2 and og = ?og] t by simp
  from h 1 2 3 show ?thesis by (intro conjI)
qed

text \<open>
  C4 as stated fails.  The second sentence of the paragraph has 900 tokens, above the
  maximum of 800, and is emitted in one chunk with the overlap text \<open>a\<close> in front.
\<close>

theorem oversized_sentence_unit_counterexample:
  "re_split_sentences ''a. b c d e f g h i j'' = [''a'', ''b c d e f g h i j''] \<and>
   count_tokens (word_encoding 100) ''b c d e f g h i j'' = 900 \<and>
   MAX_CHUNK_TOKENS module_config = 800 \<and>
   create_chunks module_config (word_encoding 100) ''a. b c d e f g h i j'' ''slug'' ''url'' =
     [\<lparr>chunk_text = ''a'', tokens = 100, chunk_heading = [],
       chunk_index = 0, article_slug = ''slug'', source_url = ''url''\<rparr>,
      \<lparr>chunk_text = ''a\<newline>\<newline>b c d e f g h i j'', tokens = 1000, chunk_heading = [],
       chunk_index = 1, article_slug = ''slug'', source_url = ''url''\<rparr>]"
  by code_simp

text \<open>
  C5.  The overlap kept is to be the last \<open>\<lfloor>OVERLAP * words / tokens\<rfloor>\<close> words of the
  source.  Where that number is 0 the slice \<open>overlap_words[-0:]\<close> is the whole list: under
  an encoding of 150 tokens a word, the source \<open>a b\<close> has 300 tokens and a target of 0
  words, and both words are kept, so the second chunk repeats the whole first chunk.
\<close>

theorem overlap_trim_keeps_all_words:
  "count_tokens (word_encoding 150) ''a b'' = 300 \<and>
   (OVERLAP_TOKENS module_config * length (split_ws ''a b'')) div 300 = 0 \<and>
   trim_overlap module_config (word_encoding 150) ''a b'' = ''a b'' \<and>
   create_chunks module_config (word_encoding 150) ''a b\<newline>\<newline>c d e'' ''slug'' ''url'' =
     [\<lparr>chunk_text = ''a b'', tokens = 300, chunk_heading = [],
       chunk_index = 0, article_slug = ''slug'', source_url = ''url''\<rparr>,
      \<lparr>chunk_text = ''a b\<newline>\<newline>c d e'', tokens = 750, chunk_heading = [],
       chunk_index = 1, article_slug = ''slug'', source_url = ''url''\<rparr>]"
  by code_simp



text \<open>
  C7.  The chunks of a document are the chunks of its sections, one section after the
  other, and the \<open>chunk_index\<close> values of the chunks of one section are \<open>0, 1, 2, ...\<close>
  in the order of emission: the \<open>k\<close>-th chunk of a section has index \<open>k - 1\<close>, and the
  first chunk of every section has index \<open>0\<close>.
\<close>

theorem chunk_index_counts_from_zero_in_each_section:
  "create_chunks cfg enc markdown slug url =
     concat (map (section_step cfg enc slug url []) (sections_of markdown)) \<and>
   map chunk_index (section_step cfg enc slug url [] sec) =
     [0..<length (section_step cfg enc slug url [] sec)]"
proof
  show "create_chunks cfg enc markdown slug url =
     concat (map (section_step cfg enc slug url []) (sections_of markdown))"
    by (rule create_chunks_concat)
  show "map chunk_index (section_step cfg enc slug url [] sec) =
     [0..<length (section_step cfg enc slug url [] sec)]"
    using section_step_extends [of cfg enc slug url "[]" sec] by auto
qed

text \<open>
  C8 (as amended).  A section whose paragraphs' token counts add up to less than
  \<open>MIN_CHUNK_TOKENS\<close> adds no chunk to the result.
\<close>

theorem undersized_section_no_chunks:
  assumes "sum_list (map (count_tokens enc) (split_into_paragraphs (content sec)))
             < MIN_CHUNK_TOKENS module_config"
  shows "section_step module_config enc slug url cs sec = cs"
proof -
  have "section_step module_config enc slug url [] sec = []"
    using assms by (intro small_section_no_chunks) (simp_all add: module_config_def)
  then show ?thesis
    using section_step_append [of module_config enc slug url cs sec] by simp
qed

text \<open>
  C8, an instance: a section of two paragraphs, 40 tokens in all.
\<close>

theorem undersized_section_no_chunks_witness:
  "sum_list (map (count_tokens (word_encoding 10))
       (split_into_paragraphs
          (content \<lparr>heading = ''H'', heading_level = Some 2,
                    content = ''## H\<newline>a b\<newline>\<newline>c\<newline>''\<rparr>)))
     < MIN_CHUNK_TOKENS module_config \<and>
   section_step module_config (word_encoding 10) ''slug'' ''url'' []
     \<lparr>heading = ''H'', heading_level = Some 2, content = ''## H\<newline>a b\<newline>\<newline>c\<newline>''\<rparr> = []"
proof -
  have h: "sum_list (map (count_tokens (word_encoding 10))
       (split_into_paragraphs
          (content \<lparr>heading = ''H'', heading_level = Some 2,
                    content = ''## H\<newline>a b\<newline>\<newline>c\<newline>''\<rparr>)))
     < MIN_CHUNK_TOKENS module_config"
    by code_simp
  show ?thesis using h undersized_section_no_chunks [OF h] by simp
qed

text \<open>
  C8 as stated fails.  Under the encoding of one token to four characters, a document
  of four paragraphs of 197 characters is one section whose content has 199 tokens, below
  the minimum of 200; its paragraphs have 50 tokens each, and the section gives a chunk of
  200 tokens.
\<close>

theorem undersized_section_counterexample:
  "sections_of
     (replicate 197 (CHR ''a'') @ blank_line @ replicate 197 (CHR ''a'') @ blank_line @
      replicate 197 (CHR ''a'') @ blank_line @ replicate 197 (CHR ''a'')) =
     [\<lparr>heading = [], heading_level = None,
       content =
         (replicate 197 (CHR ''a'') @ blank_line @ replicate 197 (CHR ''a'') @ blank_line @
          replicate 197 (CHR ''a'') @ blank_line @ replicate 197 (CHR ''a'')) @ [nl]\<rparr>] \<and>
   count_tokens quad_encoding
     ((replicate 197 (CHR ''a'') @ blank_line @ replicate 197 (CHR ''a'') @ blank_line @
       replicate 197 (CHR ''a'') @ blank_line @ replicate 197 (CHR ''a'')) @ [nl]) = 199 \<and>
   MIN_CHUNK_TOKENS module_config = 200 \<and>
   create_chunks module_config quad_encoding
     (replicate 197 (CHR ''a'') @ blank_line @ replicate 197 (CHR ''a'') @ blank_line @
      replicate 197 (CHR ''a'') @ blank_line @ replicate 197 (CHR ''a'')) ''slug'' ''url'' =
     [\<lparr>chunk_text =
         replicate 197 (CHR ''a'') @ blank_line @ replicate 197 (CHR ''a'') @ blank_line @
         replicate 197 (CHR ''a'') @ blank_line @ replicate 197 (CHR ''a''),
       tokens = 200, chunk_heading = [], chunk_index = 0,
       article_slug = ''slug'', source_url = ''url''\<rparr>]"
proof -
  let ?p = "replicate 197 (CHR ''a'')"
  have plain: "\<forall>c \<in> set ?p. \<not> isspace c \<and> c \<noteq> CHR ''#''" by (simp add: isspace_def)
  have ne: "?p \<noteq> []" by simp
  have cnt: "count_tokens quad_encoding ?p = 50"
    by (simp add: count_tokens_def quad_encoding_length)
  have "count_tokens quad_encoding
     ((?p @ blank_line @ ?p @ blank_line @ ?p @ blank_line @ ?p) @ [nl]) = 199"
    by (simp add: count_tokens_def quad_encoding_length blank_line_def)
  moreover have "MIN_CHUNK_TOKENS module_config = 200" by (simp add: module_config_def)
  ultimately show ?thesis
    using four_paragraphs [OF plain ne cnt] by simp
qed

text \<open>
  C9 (as amended).  For a document none of whose lines is a level-2 or level-3 heading:
  if it has a character that is not whitespace, \<open>_split_by_heading\<close> gives one section,
  with the empty heading and the document followed by a line feed as content; if it has
  none (the empty document too), \<open>_split_by_heading\<close> gives no section, and
  \<open>_create_chunks\<close> then works on one section with the empty heading and the document
  as content.
\<close>

theorem no_heading_sections:
  assumes "\<forall>line \<in> set (split_newline markdown). heading_match line = None"
  shows "split_by_heading markdown =
           (if list_all isspace markdown then []
            else [\<lparr>heading = [], heading_level = None, content = markdown @ [nl]\<rparr>]) \<and>
         sections_of markdown =
           (if list_all isspace markdown
            then [\<lparr>heading = [], heading_level = None, content = markdown\<rparr>]
            else [\<lparr>heading = [], heading_level = None, content = markdown @ [nl]\<rparr>])"
  using split_by_heading_no_heading [OF assms] by (simp add: sections_of_def)

text \<open>
  C9, two instances: a document of two lines, and the empty document.
\<close>

theorem no_heading_sections_witness:
  "map heading_match (split_newline ''a\<newline>b'') = [None, None] \<and>
   split_by_heading ''a\<newline>b'' =
     [\<lparr>heading = [], heading_level = None, content = ''a\<newline>b\<newline>''\<rparr>] \<and>
   map heading_match (split_newline []) = [None] \<and>
   split_by_heading [] = [] \<and>
   sections_of [] = [\<lparr>heading = [], heading_level = None, content = []\<rparr>]"
proof -
  have 1: "\<forall>line \<in> set (split_newline ''a\<newline>b''). heading_match line = None"
    by code_simp
  have 2: "\<forall>line \<in> set (split_newline []). heading_match line = None"
    by code_simp
  have 3: "\<not> list_all isspace ''a\<newline>b''" by code_simp
  have 4: "map heading_match (split_newline ''a\<newline>b'') = [None, None]" by code_simp
  have 5: "map heading_match (split_newline []) = [None]" by code_simp
  show ?thesis
    using 3 4 5 no_heading_sections [OF 1] no_heading_sections [OF 2] by (simp add: nl_def)
qed

text \<open>
  C9 as stated fails.  The content of the section of the document \<open>a\<close> is not the
  document; the document of one space has no heading and gives no section; and for the
  empty document \<open>_create_chunks\<close> works on one section, not none.
\<close>

theorem no_heading_sections_counterexample:
  "split_newline ''a'' = [''a''] \<and> heading_match ''a'' = None \<and>
   split_by_heading ''a'' = [\<lparr>heading = [], heading_level = None, content = ''a\<newline>''\<rparr>] \<and>
   ''a\<newline>'' \<noteq> ''a'' \<and>
   split_newline '' '' = ['' ''] \<and> heading_match '' '' = None \<and>
   split_by_heading '' '' = [] \<and>
   sections_of [] = [\<lparr>heading = [], heading_level = None, content = []\<rparr>]"
  by code_simp

text \<open>
  C10 (as amended).  Where the overlap source has more than \<open>OVERLAP_TOKENS\<close> tokens and
  the target word count is 0, the overlap text kept is all the words of the source, joined
  by single spaces: no word is dropped.
\<close>

theorem untrimmed_overlap_words:
  assumes "OVERLAP_TOKENS module_config < count_tokens enc src"
    and "(OVERLAP_TOKENS module_config * length (split_ws src)) div count_tokens enc src = 0"
  shows "trim_overlap module_config enc src = join '' '' (split_ws src) \<and>
         split_ws (trim_overlap module_config enc src) = split_ws src"
  using assms by (simp add: trim_overlap_def Let_def last_slice_def split_ws_join_split_ws)

text \<open>
  C10, an instance under an encoding of 150 tokens a word; the text kept has 300
  tokens, above \<open>OVERLAP_TOKENS\<close>.
\<close>

theorem untrimmed_overlap_words_witness:
  "OVERLAP_TOKENS module_config < count_tokens (word_encoding 150) ''a\<newline>b'' \<and>
   (OVERLAP_TOKENS module_config * length (split_ws ''a\<newline>b'')) div
      count_tokens (word_encoding 150) ''a\<newline>b'' = 0 \<and>
   trim_overlap module_config (word_encoding 150) ''a\<newline>b'' = ''a b'' \<and>
   split_ws (trim_overlap module_config (word_encoding 150) ''a\<newline>b'') = [''a'', ''b''] \<and>
   count_tokens (word_encoding 150) ''a b'' = 300"
proof -
  have 1: "OVERLAP_TOKENS module_config < count_tokens (word_encoding 150) ''a\<newline>b''"
    by code_simp
  have 2: "(OVERLAP_TOKENS module_config * length (split_ws ''a\<newline>b'')) div
      count_tokens (word_encoding 150) ''a\<newline>b'' = 0"
    by code_simp
  have 3: "split_ws ''a\<newline>b'' = [''a'', ''b'']" by code_simp
  have 4: "count_tokens (word_encoding 150) ''a b'' = 300" by code_simp
  note t = untrimmed_overlap_words [OF 1 2]
  have 5: "trim_overlap module_config (word_encoding 150) ''a\<newline>b'' = ''a b''"
    using conjunct1 [OF t] unfolding 3 by simp
  have 6: "split_ws (trim_overlap module_config (word_encoding 150) ''a\<newline>b'') =
      [''a'', ''b'']"
    using conjunct2 [OF t] unfolding 3 .
  show ?thesis using 1 2 4 5 6 by (intro conjI)
qed

text \<open>
  C10 as stated fails.  The source \<open>a\<close>, line feed, \<open>b\<close> is kept as \<open>a b\<close>: the
  text is not unchanged.
\<close>

theorem untrimmed_overlap_counterexample:
  "OVERLAP_TOKENS module_config < count_tokens (word_encoding 150) ''a\<newline>b'' \<and>
   (OVERLAP_TOKENS module_config * length (split_ws ''a\<newline>b'')) div
      count_tokens (word_encoding 150) ''a\<newline>b'' = 0 \<and>
   trim_overlap module_config (word_encoding 150) ''a\<newline>b'' = ''a b'' \<and>
   ''a b'' \<noteq> ''a\<newline>b''"
  by code_simp

end
